theory Spec2Isabelle
  imports Main "HOL-Library.Sublist" "HOL-Library.AList"
begin

section \<open>Python values and library operations used by testable.py\<close>

text \<open>
  Exceptions are values. \<open>IndexError\<close>, \<open>KeyError\<close> and \<open>AttributeError\<close> are the ones the
  statements of \<^verbatim>\<open>testable.py\<close> can raise themselves; \<open>OSError\<close>, \<open>ImportError\<close> and
  \<open>SyntaxError\<close> are raised by \<^verbatim>\<open>open\<close> and \<^verbatim>\<open>pyclbr.readmodule_ex\<close>.
\<close>

datatype error = IndexError | KeyError | AttributeError | OSError | ImportError | SyntaxError

text \<open>
  Strings are lists of characters; a \<^typ>\<open>char\<close> stands for a code point below 256.
  \<^verbatim>\<open>s.startswith(p)\<close>, \<^verbatim>\<open>s.endswith(tuple)\<close>, \<^verbatim>\<open>sub in s\<close> (written \<^term>\<open>sublist sub s\<close>)
  and \<^verbatim>\<open>s.strip()\<close>, which removes the characters for which \<^verbatim>\<open>str.isspace\<close> holds from
  both ends.
\<close>

definition startswith :: "string \<Rightarrow> string \<Rightarrow> bool" where
  "startswith s p = prefix p s"

definition endswith :: "string \<Rightarrow> string list \<Rightarrow> bool" where
  "endswith s tuple = list_ex (\<lambda>e. suffix e s) tuple"

definition isspace :: "char \<Rightarrow> bool" where
  "isspace c = ((of_char c :: nat) \<in> {9, 10, 11, 12, 13, 28, 29, 30, 31, 32, 133, 160})"

definition strip :: "string \<Rightarrow> string" where
  "strip s = rev (dropWhile isspace (rev (dropWhile isspace s)))"

text \<open>
  \<^verbatim>\<open>xs[i]\<close> on a list: a negative index counts from the end, an index outside the list
  raises \<open>IndexError\<close>.
\<close>

definition getitem :: "'a list \<Rightarrow> int \<Rightarrow> error + 'a" where
  "getitem xs i =
     (if 0 \<le> i \<and> i < int (length xs) then Inr (xs ! nat i)
      else if i < 0 \<and> - int (length xs) \<le> i then Inr (xs ! nat (int (length xs) + i))
      else Inl IndexError)"

text \<open>
  \<^verbatim>\<open>os.path.join(a, b)\<close> and \<^verbatim>\<open>os.path.splitext(p)\<close> as \<^verbatim>\<open>posixpath\<close> defines them:
  the extension starts at the last dot of the last path component, unless only dots
  precede it there.
\<close>

definition path_join :: "string \<Rightarrow> string \<Rightarrow> string" where
  "path_join a b =
     (if startswith b ''/'' then b
      else if a = [] \<or> suffix ''/'' a then a @ b
      else a @ ''/'' @ b)"

definition rfind :: "string \<Rightarrow> char \<Rightarrow> int" where
  "rfind s c =
     (if c \<in> set s then int (length s) - 1 - int (length (takeWhile (\<lambda>x. x \<noteq> c) (rev s)))
      else - 1)"

definition splitext :: "string \<Rightarrow> string \<times> string" where
  "splitext p =
     (let sepIndex = rfind p (CHR ''/''); dotIndex = rfind p (CHR ''.'') in
      if dotIndex > sepIndex \<and>
         list_ex (\<lambda>i. p ! i \<noteq> CHR ''.'') [nat (sepIndex + 1) ..< nat dotIndex]
      then (take (nat dotIndex) p, drop (nat dotIndex) p)
      else (p, []))"

section \<open>The decorator scanner: \<^verbatim>\<open>Testable.get_routes\<close>\<close>

text \<open>
  The body of the \<^verbatim>\<open>while True\<close> loop (lines 70 to 77). One call is one iteration: the
  index is decremented, the loop is left when it is negative, the line at the index is
  read (which raises when the index is past the end), and the loop goes on exactly when
  that line starts with the at sign. Nothing in the shape of the loop bounds it, so it is
  a partial function: \<open>None\<close> would be a run that never returns.
\<close>

partial_function (option) get_routes_loop ::
  "string list \<Rightarrow> int \<Rightarrow> string list \<Rightarrow> (error + string list) option" where
  "get_routes_loop contents lineno routes =
     (let lineno = lineno - 1 in
      if lineno < 0 then Some (Inr routes)
      else (case getitem contents lineno of
              Inl e \<Rightarrow> Some (Inl e)
            | Inr line \<Rightarrow>
                if startswith line ''@'' then
                  (if sublist ''.route('' line
                   then get_routes_loop contents lineno (routes @ [strip line])
                   else get_routes_loop contents lineno routes)
                else Some (Inr routes)))"

declare get_routes_loop.simps [code]

definition get_routes :: "string list \<Rightarrow> int \<Rightarrow> (error + string list) option" where
  "get_routes contents lineno = get_routes_loop contents (lineno - 1) []"

text \<open>
  What the scan collects from the lines before a definition, nearest line first: the
  leading run of lines that start with the at sign, of these the ones that contain
  \<^verbatim>\<open>.route(\<close>, stripped. This is the list the loop is compared with.
\<close>

definition collected :: "string list \<Rightarrow> string list" where
  "collected prev =
     map strip (filter (sublist ''.route('') (takeWhile (\<lambda>line. startswith line ''@'') prev))"

section \<open>Descriptors, results and the environment\<close>

text \<open>
  A \<^verbatim>\<open>pyclbr\<close> descriptor is an object of class \<^verbatim>\<open>Function\<close> or \<^verbatim>\<open>Class\<close> with the
  attributes named in the docstring of \<^verbatim>\<open>Result\<close>. The dictionary returned by
  \<^verbatim>\<open>readmodule_ex\<close> maps names to descriptors; for a package it also holds the key
  \<^verbatim>\<open>__path__\<close> with a list of strings, which has no attribute \<^verbatim>\<open>file\<close>.
\<close>

datatype pyclass = Function | Class

fun class_name :: "pyclass \<Rightarrow> string" where
  "class_name Function = ''Function''"
| "class_name Class = ''Class''"

record pyobj =
  cls :: pyclass
  "file" :: string
  lineno :: int
  module :: string
  name :: string

datatype mvalue = Descriptor pyobj | PathList "string list"

record Result =
  obj :: pyobj
  routes :: "string list"
  obj_type :: string

definition Result_init :: "pyobj \<Rightarrow> string option \<Rightarrow> Result" where
  "Result_init ob type_kw =
     \<lparr>obj = ob, routes = [],
      obj_type = (case type_kw of Some t \<Rightarrow> t | None \<Rightarrow> class_name (cls ob))\<rparr>"

text \<open>
  The result dictionary keeps insertion order, so it is an association list with one
  pair per key: \<^term>\<open>map_of\<close> reads it and \<^term>\<open>AList.update\<close> stores a value, in place
  for a key that is there and at the end for a new one.
\<close>

type_synonym results = "(string \<times> Result list) list"

text \<open>
  What \<^verbatim>\<open>find\<close> reads from outside: the triples of \<^verbatim>\<open>os.walk(top, topdown=False)\<close> in
  the order it yields them, \<^verbatim>\<open>os.path.abspath\<close> and \<^verbatim>\<open>os.path.expanduser\<close> (they depend
  on the working directory and the home directory), the lines of a file
  (\<^verbatim>\<open>open(p, 'r')\<close> then \<^verbatim>\<open>readlines()\<close>), the dictionary of \<^verbatim>\<open>pyclbr.readmodule_ex\<close> as the
  list of its items, and the value of \<^verbatim>\<open>__file__\<close>.
\<close>

record env =
  os_walk :: "string \<Rightarrow> (string \<times> string list \<times> string list) list"
  abspath :: "string \<Rightarrow> string"
  expanduser :: "string \<Rightarrow> string"
  readlines :: "string \<Rightarrow> error + string list"
  readmodule_ex :: "string \<Rightarrow> string list \<Rightarrow> error + (string \<times> mvalue) list"
  dunder_file :: string

record Testable =
  top_dir :: string

definition Testable_init :: "env \<Rightarrow> string \<Rightarrow> Testable" where
  "Testable_init e td =
     \<lparr>top_dir = abspath e (if sublist ''~'' td then expanduser e td else td)\<rparr>"

section \<open>The tree walker: \<^verbatim>\<open>Testable.find\<close>\<close>

text \<open>
  The loop over \<^verbatim>\<open>module_data.items()\<close> (lines 103 to 111). The new \<^verbatim>\<open>Result\<close> is appended
  to \<^verbatim>\<open>results[full_path]\<close> before its routes are set; the list holds the same object, so
  the assignment of line 111 is seen there, and a failing \<^verbatim>\<open>get_routes\<close> ends the run.
\<close>

fun find_items ::
  "Testable \<Rightarrow> string \<Rightarrow> string list \<Rightarrow> (string \<times> mvalue) list \<Rightarrow> results
     \<Rightarrow> (error + results) option" where
  "find_items self full_path contents [] results = Some (Inr results)"
| "find_items self full_path contents ((nm, v) # items) results =
     (case v of
        PathList _ \<Rightarrow> Some (Inl AttributeError)
      | Descriptor ob \<Rightarrow>
          if \<not> startswith (file ob) (top_dir self) then
            find_items self full_path contents items results
          else if file ob \<noteq> full_path then
            find_items self full_path contents items results
          else
            (let result = Result_init ob None in
             case map_of results full_path of
               None \<Rightarrow> Some (Inl KeyError)
             | Some rs \<Rightarrow>
                 (case get_routes contents (lineno ob) of
                    None \<Rightarrow> None
                  | Some (Inl e) \<Rightarrow> Some (Inl e)
                  | Some (Inr r) \<Rightarrow>
                      find_items self full_path contents items
                        (AList.update full_path (rs @ [result\<lparr>routes := r\<rparr>]) results))))"

text \<open>The loop over \<^verbatim>\<open>filenames\<close> (lines 89 to 111).\<close>

fun find_files ::
  "Testable \<Rightarrow> env \<Rightarrow> string list \<Rightarrow> string \<Rightarrow> string list \<Rightarrow> results
     \<Rightarrow> (error + results) option" where
  "find_files self e extensions parent_dir [] results = Some (Inr results)"
| "find_files self e extensions parent_dir (filename # filenames) results =
     (if filename = dunder_file e then
        find_files self e extensions parent_dir filenames results
      else if endswith filename extensions then
        (let (fn, ext) = splitext filename;
             full_path = path_join parent_dir filename;
             results = (if map_of results full_path = None
                        then AList.update full_path [] results else results)
         in case readlines e full_path of
              Inl err \<Rightarrow> Some (Inl err)
            | Inr contents \<Rightarrow>
                (case readmodule_ex e fn [parent_dir] of
                   Inl err \<Rightarrow> Some (Inl err)
                 | Inr module_data \<Rightarrow>
                     (case find_items self full_path contents module_data results of
                        None \<Rightarrow> None
                      | Some (Inl err) \<Rightarrow> Some (Inl err)
                      | Some (Inr results') \<Rightarrow>
                          find_files self e extensions parent_dir filenames results')))
      else find_files self e extensions parent_dir filenames results)"

text \<open>The loop over the triples of \<^verbatim>\<open>os.walk\<close> (lines 86 to 111).\<close>

fun find_dirs ::
  "Testable \<Rightarrow> env \<Rightarrow> string list \<Rightarrow> (string \<times> string list \<times> string list) list \<Rightarrow> results
     \<Rightarrow> (error + results) option" where
  "find_dirs self e extensions [] results = Some (Inr results)"
| "find_dirs self e extensions ((parent_dir, sub_dirs, filenames) # triples) results =
     (let parent_dir = abspath e parent_dir in
      case find_files self e extensions parent_dir filenames results of
        None \<Rightarrow> None
      | Some (Inl err) \<Rightarrow> Some (Inl err)
      | Some (Inr results') \<Rightarrow> find_dirs self e extensions triples results')"

definition default_extensions :: "string list option \<Rightarrow> string list" where
  "default_extensions extensions =
     (case extensions of None \<Rightarrow> [''.py'', ''.sh''] | Some exts \<Rightarrow> exts)"

definition Testable_find :: "Testable \<Rightarrow> env \<Rightarrow> string list option \<Rightarrow> (error + results) option" where
  "Testable_find self e extensions =
     find_dirs self e (default_extensions extensions) (os_walk e (top_dir self)) []"

section \<open>The reporter: \<^verbatim>\<open>ResultJSONEncoder\<close> and \<^verbatim>\<open>analyze\<close>\<close>

text \<open>
  The document that \<^verbatim>\<open>json.dumps\<close> writes, as a tree. \<^verbatim>\<open>ResultJSONEncoder.default\<close>
  turns a \<^verbatim>\<open>Result\<close> into a dictionary with one key, the file of its descriptor, whose
  value is the dictionary of the four fields (lines 41 to 48); the encoder then writes
  that dictionary as it writes any other.
\<close>

datatype json = JString string | JInt int | JList "json list" | JDict "(string \<times> json) list"

definition ResultJSONEncoder_default :: "Result \<Rightarrow> json" where
  "ResultJSONEncoder_default r =
     JDict [(file (obj r),
             JDict [(''type'', JString (obj_type r)),
                    (''name'', JString (name (obj r))),
                    (''lineno'', JInt (lineno (obj r))),
                    (''routes'', JList (map JString (routes r)))])]"

definition dumps :: "results \<Rightarrow> json" where
  "dumps results =
     JDict (map (\<lambda>(path, rs). (path, JList (map ResultJSONEncoder_default rs))) results)"

definition analyze :: "env \<Rightarrow> string \<Rightarrow> string list \<Rightarrow> (error + json) option" where
  "analyze e td extensions =
     (let testable = Testable_init e td in
      case Testable_find testable e (Some extensions) of
        None \<Rightarrow> None
      | Some (Inl err) \<Rightarrow> Some (Inl err)
      | Some (Inr results) \<Rightarrow> Some (Inr (dumps results)))"

section \<open>Specification of one file visit\<close>

text \<open>
  The module analyzer in the words of the specification: of the items of the introspection
  dictionary, those are retained whose originating file lies (textually) under the root
  and is the file under analysis; each retained descriptor gives one record, whose routes
  are what the decorator scanner collects above its line. The loops of \<^verbatim>\<open>find\<close> are
  compared with these functions.
\<close>

fun retained :: "Testable \<Rightarrow> string \<Rightarrow> (string \<times> mvalue) list \<Rightarrow> (string \<times> pyobj) list" where
  "retained self full_path [] = []"
| "retained self full_path ((nm, Descriptor ob) # items) =
     (if startswith (file ob) (top_dir self) \<and> file ob = full_path then [(nm, ob)] else [])
       @ retained self full_path items"
| "retained self full_path ((nm, PathList ps) # items) = retained self full_path items"

definition record_of :: "string list \<Rightarrow> pyobj \<Rightarrow> Result" where
  "record_of contents ob =
     \<lparr>obj = ob, routes = collected (rev (take (nat (lineno ob - 1)) contents)),
      obj_type = class_name (cls ob)\<rparr>"

definition new_records :: "Testable \<Rightarrow> string \<Rightarrow> string list \<Rightarrow> (string \<times> mvalue) list \<Rightarrow> Result list" where
  "new_records self full_path contents items =
     map (record_of contents \<circ> snd) (retained self full_path items)"

definition add_entry :: "string \<Rightarrow> Result list \<Rightarrow> results \<Rightarrow> results" where
  "add_entry full_path recs results =
     AList.update full_path
       ((case map_of results full_path of None \<Rightarrow> [] | Some rs \<Rightarrow> rs) @ recs) results"


section \<open>Example directory trees\<close>

text \<open>
  The end-to-end scenario of the specification: one file with the lines
  \<^verbatim>\<open>@app.route('/x')\<close>, \<^verbatim>\<open>@login_required\<close>, \<^verbatim>\<open>def handler():\<close>.
\<close>

definition example_env :: env where
  "example_env =
     \<lparr>os_walk = (\<lambda>top. if top = ''/srv/app'' then [(''/srv/app'', [], [''app.py''])] else []),
      abspath = (\<lambda>p. p),
      expanduser = (\<lambda>p. p),
      readlines = (\<lambda>p. if p = ''/srv/app/app.py''
                          then Inr [''@app.route('/x')\<newline>'', ''@login_required\<newline>'',
                                    ''def handler():\<newline>'']
                          else Inl OSError),
      readmodule_ex = (\<lambda>fn path. if fn = ''app'' \<and> path = [''/srv/app'']
                          then Inr [(''handler'',
                                     Descriptor \<lparr>cls = Function, file = ''/srv/app/app.py'',
                                        lineno = 3, module = ''app'', name = ''handler''\<rparr>)]
                          else Inl ImportError),
      dunder_file = ''/opt/tools/testable.py''\<rparr>"


text \<open>
  A tree with a subdirectory, walked bottom-up: \<^verbatim>\<open>app.py\<close> imports a class of
  \<^verbatim>\<open>pkg/util.py\<close>, so the class is in its dictionary with the file of its origin;
  \<^verbatim>\<open>empty.py\<close> has no definition; \<^verbatim>\<open>README.md\<close> has no recognized extension.
\<close>

definition example_tree :: env where
  "example_tree =
     \<lparr>os_walk = (\<lambda>top. if top = ''/srv/app''
                       then [(''/srv/app/pkg'', [], [''util.py'', ''README.md'']),
                             (''/srv/app'', [''pkg''], [''app.py'', ''empty.py''])]
                       else []),
      abspath = (\<lambda>p. p),
      expanduser = (\<lambda>p. p),
      readlines = (\<lambda>p.
         if p = ''/srv/app/pkg/util.py'' then
           Inr [''class Helper:\<newline>'', ''    pass\<newline>'']
         else if p = ''/srv/app/app.py'' then
           Inr [''from pkg.util import Helper\<newline>'', ''\<newline>'',
                ''@cache\<newline>'', ''@app.route('/x', methods=['GET'])  \<newline>'',
                ''def handler():\<newline>'', ''    return Helper()\<newline>'']
         else if p = ''/srv/app/empty.py'' then Inr []
         else if p = ''/srv/app/pkg/README.md'' then Inr [''notes\<newline>'']
         else Inl OSError),
      readmodule_ex = (\<lambda>fn path.
         if fn = ''util'' \<and> path = [''/srv/app/pkg''] then
           Inr [(''Helper'', Descriptor \<lparr>cls = Class, file = ''/srv/app/pkg/util.py'',
                                lineno = 1, module = ''util'', name = ''Helper''\<rparr>)]
         else if fn = ''app'' \<and> path = [''/srv/app''] then
           Inr [(''Helper'', Descriptor \<lparr>cls = Class, file = ''/srv/app/pkg/util.py'',
                                lineno = 1, module = ''pkg.util'', name = ''Helper''\<rparr>),
                (''handler'', Descriptor \<lparr>cls = Function, file = ''/srv/app/app.py'',
                                lineno = 5, module = ''app'', name = ''handler''\<rparr>)]
         else if fn = ''empty'' \<and> path = [''/srv/app''] then Inr []
         else Inl ImportError),
      dunder_file = ''/opt/tools/testable.py''\<rparr>"

definition example_tree_results :: results where
  "example_tree_results =
     [(''/srv/app/pkg/util.py'',
       [\<lparr>obj = \<lparr>cls = Class, file = ''/srv/app/pkg/util.py'', lineno = 1,
                  module = ''util'', name = ''Helper''\<rparr>,
         routes = [], obj_type = ''Class''\<rparr>]),
      (''/srv/app/app.py'',
       [\<lparr>obj = \<lparr>cls = Function, file = ''/srv/app/app.py'', lineno = 5,
                  module = ''app'', name = ''handler''\<rparr>,
         routes = [''@app.route('/x', methods=['GET'])''], obj_type = ''Function''\<rparr>]),
      (''/srv/app/empty.py'', [])]"

text \<open>
  The analyzer scans the directory that holds it. In \<open>own_name_env\<close> it was started as
  \<^verbatim>\<open>python testable.py\<close> by an interpreter that leaves \<^verbatim>\<open>__file__\<close> as given on the command
  line; in \<open>own_path_env\<close> \<^verbatim>\<open>__file__\<close> is the absolute path of the script.
\<close>

definition own_name_env :: env where
  "own_name_env =
     \<lparr>os_walk = (\<lambda>top. if top = ''/srv/tool''
                       then [(''/srv/tool'', [], [''testable.py''])] else []),
      abspath = (\<lambda>p. p),
      expanduser = (\<lambda>p. p),
      readlines = (\<lambda>p. if p = ''/srv/tool/testable.py''
                          then Inr [''class Testable:\<newline>'', ''    pass\<newline>'']
                          else Inl OSError),
      readmodule_ex = (\<lambda>fn path. if fn = ''testable'' \<and> path = [''/srv/tool'']
                          then Inr [(''Testable'',
                                     Descriptor \<lparr>cls = Class, file = ''/srv/tool/testable.py'',
                                        lineno = 1, module = ''testable'', name = ''Testable''\<rparr>)]
                          else Inl ImportError),
      dunder_file = ''testable.py''\<rparr>"

definition own_path_env :: env where
  "own_path_env = own_name_env\<lparr>dunder_file := ''/srv/tool/testable.py''\<rparr>"



section \<open>Properties of the decorator scanner\<close>

subsection \<open>The loop computes \<^const>\<open>collected\<close>\<close>

lemma getitem_nat: "n < length xs \<Longrightarrow> getitem xs (int n) = Inr (xs ! n)"
  by (simp add: getitem_def)

lemma getitem_past: "int (length xs) \<le> i \<Longrightarrow> getitem xs i = Inl IndexError"
  by (simp add: getitem_def)

lemma collected_Cons:
  "collected (line # prev) =
     (if startswith line ''@''
      then (if sublist ''.route('' line then [strip line] else []) @ collected prev
      else [])"
  by (simp add: collected_def)

lemma get_routes_loop_in_range:
  "i \<le> int (length contents) \<Longrightarrow>
   get_routes_loop contents i acc =
     Some (Inr (acc @ collected (rev (take (nat i) contents))))"
proof (induction "nat i" arbitrary: i acc)
  case 0
  then have "i - 1 < 0" by simp
  moreover have "collected (rev (take (nat i) contents)) = []"
    using 0 by (simp add: collected_def)
  ultimately show ?case
    by (subst get_routes_loop.simps) (simp add: Let_def)
next
  case (Suc n)
  then have i: "i = int n + 1" and n: "n < length contents" by auto
  have prev: "rev (take (Suc n) contents) = contents ! n # rev (take n contents)"
    using n by (simp add: take_Suc_conv_app_nth)
  have IH: "get_routes_loop contents (int n) rs =
              Some (Inr (rs @ collected (rev (take n contents))))" for rs
    using Suc.hyps(1) [of "int n" rs] n by simp
  show ?case
    by (subst get_routes_loop.simps)
       (simp add: i Let_def getitem_nat [OF n] IH nat_add_distrib prev collected_Cons)
qed

lemma get_routes_loop_past:
  "int (length contents) < i \<Longrightarrow> get_routes_loop contents i acc = Some (Inl IndexError)"
  by (subst get_routes_loop.simps) (simp add: Let_def getitem_past)

lemma get_routes_eq:
  "get_routes contents L =
     Some (if L - 2 < int (length contents)
           then Inr (collected (rev (take (nat (L - 1)) contents)))
           else Inl IndexError)"
  by (simp add: get_routes_def get_routes_loop_in_range get_routes_loop_past)

subsection \<open>Failure and termination\<close>

text \<open>
  Claim C1, as stated, says that \<^verbatim>\<open>get_routes\<close> returns a list for every \<^verbatim>\<open>contents\<close> and
  every \<^verbatim>\<open>lineno\<close>. It does not: with one line and \<^verbatim>\<open>lineno = 3\<close> the first index read is
  1, which is the length of the list, and \<^verbatim>\<open>contents[1]\<close> raises \<open>IndexError\<close>.
\<close>

theorem get_routes_index_error: "get_routes [''def f():\<newline>''] 3 = Some (Inl IndexError)"
  by (simp add: get_routes_def get_routes_loop.simps getitem_def)

text \<open>
  Claim C1, amended: \<^verbatim>\<open>get_routes\<close> returns a list of strings whenever the starting index
  \<open>L - 2\<close> is less than the number of lines; this includes every negative starting index,
  where the list is empty. When the starting index is at or past the end of the list, it
  raises \<open>IndexError\<close>.
\<close>

theorem get_routes_returns:
  "(L - 2 < int (length contents) \<longrightarrow> (\<exists>rs. get_routes contents L = Some (Inr rs))) \<and>
   (L - 2 < 0 \<longrightarrow> get_routes contents L = Some (Inr [])) \<and>
   (int (length contents) \<le> L - 2 \<longrightarrow> get_routes contents L = Some (Inl IndexError))"
  by (simp add: get_routes_eq collected_def)

theorem get_routes_returns_witness:
  "((1::int) - 2 < int (length [''@a.route('/')'']) \<and> (1::int) - 2 < 0
      \<and> get_routes [''@a.route('/')''] 1 = Some (Inr [])) \<and>
   (int (length [''x = 1'']) \<le> (3::int) - 2
      \<and> get_routes [''x = 1''] 3 = Some (Inl IndexError))"
  using get_routes_returns [of 1 "[''@a.route('/')'']"] get_routes_returns [of 3 "[''x = 1'']"]
  by simp

text \<open>
  Claim C8: \<^verbatim>\<open>get_routes\<close> terminates on every list of lines and every integer
  \<^verbatim>\<open>lineno\<close>: the loop, which is defined as a partial function, always yields an outcome
  (a list of routes or the index error of claim C1).
\<close>

theorem get_routes_terminates: "\<exists>r. get_routes contents L = Some r"
  by (simp add: get_routes_eq)

subsection \<open>What is collected\<close>

lemma takeWhile_run:
  "\<forall>d \<in> set ds. P d \<Longrightarrow> \<not> P x \<Longrightarrow> takeWhile P (ds @ x # xs) = ds"
  by (induction ds) auto

text \<open>
  Claim C2: let the definition be at the 1-based line \<open>L\<close>, directly preceded by the lines
  \<open>decs\<close>, which all start with the at sign, and let the line before them, if there is
  one, not start with it. Then \<^verbatim>\<open>get_routes\<close> returns the stripped text of exactly the
  lines of \<open>decs\<close> that contain \<^verbatim>\<open>.route(\<close>, the line nearest to the definition first:
  as many strings as there are such lines. A line of \<open>decs\<close> without the substring is
  left out and does not end the scan; nothing of \<open>head_lines\<close>, above the interruption,
  is collected.
\<close>

theorem get_routes_decorators:
  assumes "\<forall>d \<in> set decs. startswith d ''@''"
    and "head_lines = [] \<or> \<not> startswith (last head_lines) ''@''"
    and "L = int (length head_lines) + int (length decs) + 1"
  shows "get_routes (head_lines @ decs @ def_line # tail_lines) L =
           Some (Inr (map strip (filter (sublist ''.route('') (rev decs)))) \<and>
         length (map strip (filter (sublist ''.route('') (rev decs))) =
           length (filter (sublist ''.route('') decs)"
proof -
  let ?contents = "head_lines @ decs @ def_line # tail_lines"
  have tk: "take (nat (L - 1)) ?contents = head_lines @ decs"
    using assms(3) by (simp add: nat_add_distrib)
  have tw: "takeWhile (\<lambda>line. startswith line ''@'') (rev decs @ rev head_lines) = rev decs"
  proof (cases "head_lines = []")
    case True
    then show ?thesis using assms(1) by simp
  next
    case False
    then have hd_rev: "hd (rev head_lines) = last head_lines" and ne: "rev head_lines \<noteq> []"
      by (simp_all add: hd_rev)
    then obtain x xs where xs: "rev head_lines = x # xs" and x: "x = last head_lines"
      by (cases "rev head_lines") auto
    have "takeWhile (\<lambda>line. startswith line ''@'') (rev decs @ x # xs) = rev decs"
      using assms(1,2) False x by (intro takeWhile_run) auto
    then show ?thesis by (simp only: xs)
  qed
  have "L - 2 < int (length ?contents)" using assms(3) by simp
  then have "get_routes ?contents L = Some (Inr (collected (rev (head_lines @ decs))))"
    by (simp only: get_routes_eq tk if_True)
  then show ?thesis
    by (simp add: collected_def tw rev_filter [symmetric])
qed

theorem get_routes_decorators_witness:
  "list_all (\<lambda>d. startswith d ''@'')
     [''@app.route('/x')\<newline>'', ''@login_required\<newline>'', ''@bp.route('/y')  \<newline>''] \<and>
   \<not> startswith (last [''import flask\<newline>'', ''@app.route('/old')\<newline>'', ''x = 1\<newline>'']) ''@'' \<and>
   get_routes
     [''import flask\<newline>'', ''@app.route('/old')\<newline>'', ''x = 1\<newline>'',
      ''@app.route('/x')\<newline>'', ''@login_required\<newline>'', ''@bp.route('/y')  \<newline>'',
      ''def handler():\<newline>'', ''    pass\<newline>''] 7
     = Some (Inr [''@bp.route('/y')'', ''@app.route('/x')''])"
proof -
  let ?decs = "[''@app.route('/x')\<newline>'', ''@login_required\<newline>'', ''@bp.route('/y')  \<newline>'']"
  let ?head = "[''import flask\<newline>'', ''@app.route('/old')\<newline>'', ''x = 1\<newline>'']"
  have h1: "\<forall>d \<in> set ?decs. startswith d ''@''"
    by (simp add: startswith_def)
  have h2: "?head = [] \<or> \<not> startswith (last ?head) ''@''"
    by (simp add: startswith_def)
  have h3: "(7::int) = int (length ?head) + int (length ?decs) + 1"
    by simp
  have ev: "map strip (filter (sublist ''.route('') (rev ?decs)) =
              [''@bp.route('/y')'', ''@app.route('/x')'']"
    by code_simp
  show ?thesis
    using get_routes_decorators [OF h1 h2 h3, of "''def handler():\<newline>''" "[''    pass\<newline>'']", unfolded ev]
      h1 h2
    by (simp add: list_all_iff)
qed

section \<open>Properties of the tree walker\<close>

subsection \<open>The loops against the specification of a visit\<close>

lemma new_records_Nil [simp]: "new_records self fp contents [] = []"
  by (simp add: new_records_def)

lemma new_records_Cons:
  "new_records self fp contents ((nm, Descriptor ob) # items) =
     (if startswith (file ob) (top_dir self) \<and> file ob = fp then [record_of contents ob] else [])
       @ new_records self fp contents items"
  by (auto simp: new_records_def)

lemma get_routes_Inr:
  "get_routes contents L = Some (Inr r) \<Longrightarrow> r = collected (rev (take (nat (L - 1)) contents))"
  by (simp add: get_routes_eq split: if_splits)

lemma find_items_result:
  "find_items self fp contents items results = Some (Inr results') \<Longrightarrow>
   map_of results fp = Some rs0 \<Longrightarrow>
   results' = AList.update fp (rs0 @ new_records self fp contents items) results"
proof (induction items arbitrary: results rs0)
  case Nil
  then show ?case by (simp add: AList.update_triv)
next
  case (Cons item items)
  obtain nm v where item: "item = (nm, v)" by (cases item)
  show ?case
  proof (cases v)
    case (PathList ps)
    with Cons.prems item show ?thesis by simp
  next
    case (Descriptor ob)
    show ?thesis
    proof (cases "startswith (file ob) (top_dir self) \<and> file ob = fp")
      case False
      then have "find_items self fp contents items results = Some (Inr results')"
        using Cons.prems(1) item Descriptor by (auto split: if_splits)
      from Cons.IH [OF this Cons.prems(2)] False show ?thesis
        by (auto simp: item Descriptor new_records_Cons)
    next
      case True
      from Cons.prems item Descriptor True obtain r where
        r: "get_routes contents (lineno ob) = Some (Inr r)" and
        rest: "find_items self fp contents items
                 (AList.update fp (rs0 @ [Result_init ob None\<lparr>routes := r\<rparr>]) results)
               = Some (Inr results')"
        by (auto simp: Let_def split: option.splits sum.splits)
      have rec: "Result_init ob None\<lparr>routes := r\<rparr> = record_of contents ob"
        using get_routes_Inr [OF r] by (simp add: Result_init_def record_of_def)
      have "map_of (AList.update fp (rs0 @ [record_of contents ob]) results) fp
              = Some (rs0 @ [record_of contents ob])"
        by (simp add: AList.update_conv')
      from Cons.IH [OF rest [unfolded rec] this] True show ?thesis
        by (auto simp: item Descriptor new_records_Cons)
    qed
  qed
qed

text \<open>One file that passes both tests of the loop over the file names.\<close>

lemma find_files_Cons_visit:
  assumes "find_files self e exts pd (f # fs) results = Some (Inr results')"
    and "f \<noteq> dunder_file e" and "endswith f exts"
  obtains contents md where
    "readlines e (path_join pd f) = Inr contents"
    "readmodule_ex e (fst (splitext f)) [pd] = Inr md"
    "find_files self e exts pd fs
       (add_entry (path_join pd f) (new_records self (path_join pd f) contents md) results)
     = Some (Inr results')"
proof -
  let ?fp = "path_join pd f"
  let ?res1 = "if map_of results ?fp = None then AList.update ?fp [] results else results"
  let ?old = "case map_of results ?fp of None \<Rightarrow> [] | Some rs \<Rightarrow> rs"
  from assms obtain contents md mid where
    c: "readlines e ?fp = Inr contents" and
    m: "readmodule_ex e (fst (splitext f)) [pd] = Inr md" and
    i: "find_items self ?fp contents md ?res1 = Some (Inr mid)" and
    r: "find_files self e exts pd fs mid = Some (Inr results')"
    by (auto simp: Let_def split: prod.splits sum.splits option.splits)
  have "map_of ?res1 ?fp = Some ?old"
    by (auto simp: AList.update_conv')
  from find_items_result [OF i this]
  have "mid = add_entry ?fp (new_records self ?fp contents md) results"
    by (auto simp: add_entry_def)
  with c m r that show thesis by simp
qed

lemma find_files_Cons_skip:
  assumes "find_files self e exts pd (f # fs) results = Some (Inr results')"
    and "f = dunder_file e \<or> \<not> endswith f exts"
  shows "find_files self e exts pd fs results = Some (Inr results')"
  using assms by (auto split: if_splits)

lemma find_files_invariant:
  assumes "find_files self e exts pd fs results = Some (Inr results')"
    and "Q results"
    and "\<And>f contents md res.
           f \<in> set fs \<Longrightarrow> f \<noteq> dunder_file e \<Longrightarrow> endswith f exts \<Longrightarrow>
           readlines e (path_join pd f) = Inr contents \<Longrightarrow>
           readmodule_ex e (fst (splitext f)) [pd] = Inr md \<Longrightarrow> Q res \<Longrightarrow>
           Q (add_entry (path_join pd f) (new_records self (path_join pd f) contents md) res)"
  shows "Q results'"
  using assms
proof (induction fs arbitrary: results)
  case Nil
  then show ?case by simp
next
  case (Cons f fs)
  show ?case
  proof (cases "f = dunder_file e \<or> \<not> endswith f exts")
    case True
    from find_files_Cons_skip [OF Cons.prems(1) True] Cons.prems(2,3) show ?thesis
      by (intro Cons.IH [of results]) auto
  next
    case False
    then have f: "f \<noteq> dunder_file e" "endswith f exts" by auto
    from find_files_Cons_visit [OF Cons.prems(1) f] obtain contents md where
      c: "readlines e (path_join pd f) = Inr contents" and
      m: "readmodule_ex e (fst (splitext f)) [pd] = Inr md" and
      r: "find_files self e exts pd fs
            (add_entry (path_join pd f) (new_records self (path_join pd f) contents md) results)
          = Some (Inr results')"
      by blast
    have "Q (add_entry (path_join pd f) (new_records self (path_join pd f) contents md) results)"
      using Cons.prems(3) [OF _ f c m Cons.prems(2)] by simp
    from Cons.IH [OF r this] Cons.prems(3) show ?thesis by auto
  qed
qed

lemma find_dirs_invariant:
  assumes "find_dirs self e exts triples results = Some (Inr results')"
    and "Q results"
    and "\<And>p subs fs f contents md res.
           (p, subs, fs) \<in> set triples \<Longrightarrow>
           f \<in> set fs \<Longrightarrow> f \<noteq> dunder_file e \<Longrightarrow> endswith f exts \<Longrightarrow>
           readlines e (path_join (abspath e p) f) = Inr contents \<Longrightarrow>
           readmodule_ex e (fst (splitext f)) [abspath e p] = Inr md \<Longrightarrow> Q res \<Longrightarrow>
           Q (add_entry (path_join (abspath e p) f)
                (new_records self (path_join (abspath e p) f) contents md) res)"
  shows "Q results'"
  using assms
proof (induction triples arbitrary: results)
  case Nil
  then show ?case by simp
next
  case (Cons t triples)
  obtain p subs fs where t: "t = (p, subs, fs)" by (cases t)
  from Cons.prems(1) t obtain mid where
    a: "find_files self e exts (abspath e p) fs results = Some (Inr mid)" and
    b: "find_dirs self e exts triples mid = Some (Inr results')"
    by (auto simp: Let_def split: option.splits sum.splits)
  have "Q mid"
    by (rule find_files_invariant [where Q = Q, OF a Cons.prems(2)])
       (rule Cons.prems(3) [of p subs fs], auto simp: t)
  show ?case
    by (rule Cons.IH [OF b \<open>Q mid\<close>]) (rule Cons.prems(3), auto)
qed

lemma Testable_find_invariant:
  assumes "Testable_find self e extensions = Some (Inr results)"
    and "Q []"
    and "\<And>p subs fs f contents md res.
           (p, subs, fs) \<in> set (os_walk e (top_dir self)) \<Longrightarrow>
           f \<in> set fs \<Longrightarrow> f \<noteq> dunder_file e \<Longrightarrow>
           endswith f (default_extensions extensions) \<Longrightarrow>
           readlines e (path_join (abspath e p) f) = Inr contents \<Longrightarrow>
           readmodule_ex e (fst (splitext f)) [abspath e p] = Inr md \<Longrightarrow> Q res \<Longrightarrow>
           Q (add_entry (path_join (abspath e p) f)
                (new_records self (path_join (abspath e p) f) contents md) res)"
  shows "Q results"
  using assms(1) unfolding Testable_find_def
  by (rule find_dirs_invariant [where Q = Q]) (use assms(2,3) in auto)

subsection \<open>The walk always ends\<close>

text \<open>
  The three loops of \<^verbatim>\<open>find\<close> run over finite lists and the scanner returns, so a run of
  \<^verbatim>\<open>find\<close> always ends, with a mapping or with an exception.
\<close>

lemma find_items_returns: "find_items self fp contents items results \<noteq> None"
proof (induction items arbitrary: results)
  case Nil
  show ?case by simp
next
  case (Cons item items)
  obtain nm v where item: "item = (nm, v)" by (cases item)
  show ?case
    using Cons.IH
    by (cases v) (simp_all add: item get_routes_eq Let_def split: option.splits)
qed

lemma find_files_returns: "find_files self e exts pd fs results \<noteq> None"
proof (induction fs arbitrary: results)
  case Nil
  show ?case by simp
next
  case (Cons f fs)
  obtain fn ext where sp: "splitext f = (fn, ext)" by (cases "splitext f")
  let ?fp = "path_join pd f"
  let ?res1 = "if map_of results ?fp = None then AList.update ?fp [] results else results"
  show ?case
  proof (cases "f = dunder_file e \<or> \<not> endswith f exts")
    case True
    then show ?thesis using Cons.IH by auto
  next
    case False
    show ?thesis
    proof (cases "readlines e ?fp")
      case (Inl err)
      with False show ?thesis by (simp add: sp Let_def)
    next
      case contents: (Inr contents)
      show ?thesis
      proof (cases "readmodule_ex e fn [pd]")
        case (Inl err)
        with False contents show ?thesis by (simp add: sp Let_def)
      next
        case md: (Inr md)
        obtain r where r: "find_items self ?fp contents md ?res1 = Some r"
          using find_items_returns [of self ?fp contents md ?res1] by blast
        show ?thesis
        proof (cases r)
          case (Inl err)
          with False contents md r show ?thesis by (simp add: sp Let_def)
        next
          case (Inr results')
          with False contents md r Cons.IH [of results'] show ?thesis
            by (simp add: sp Let_def)
        qed
      qed
    qed
  qed
qed

lemma find_dirs_returns: "find_dirs self e exts triples results \<noteq> None"
proof (induction triples arbitrary: results)
  case Nil
  show ?case by simp
next
  case (Cons t triples)
  obtain p subs fs where t: "t = (p, subs, fs)" by (cases t)
  obtain r where r: "find_files self e exts (abspath e p) fs results = Some r"
    using find_files_returns [of self e exts "abspath e p" fs results] by blast
  show ?case
  proof (cases r)
    case (Inl err)
    with r show ?thesis by (simp add: t Let_def)
  next
    case (Inr results')
    with r Cons.IH [of results'] show ?thesis by (simp add: t Let_def)
  qed
qed

lemma Testable_find_returns: "\<exists>r. Testable_find self e extensions = Some r"
  using find_dirs_returns [of self e "default_extensions extensions" "os_walk e (top_dir self)" "[]"]
  by (auto simp: Testable_find_def)

lemma example_tree_find:
  "Testable_find \<lparr>top_dir = ''/srv/app''\<rparr> example_tree None = Some (Inr example_tree_results)"
  by code_simp

subsection \<open>Entries and records\<close>

lemma set_update_subset: "set (AList.update k v al) \<subseteq> insert (k, v) (set al)"
  by (induction al) auto

lemma add_entry_records:
  assumes "\<forall>(k, rs) \<in> set res. \<forall>r \<in> set rs. P k r"
    and "\<forall>r \<in> set recs. P fp r"
  shows "\<forall>(k, rs) \<in> set (add_entry fp recs res). \<forall>r \<in> set rs. P k r"
proof -
  have old: "\<forall>r \<in> set (case map_of res fp of None \<Rightarrow> [] | Some rs \<Rightarrow> rs). P fp r"
  proof (cases "map_of res fp")
    case None
    then show ?thesis by simp
  next
    case (Some rs)
    then have "(fp, rs) \<in> set res" by (rule map_of_SomeD)
    with assms(1) Some show ?thesis by auto
  qed
  show ?thesis
  proof (clarify)
    fix k rs r
    assume mem: "(k, rs) \<in> set (add_entry fp recs res)" and r: "r \<in> set rs"
    from mem set_update_subset [of fp _ res]
    have "(k, rs) \<in> set res \<or>
          (k = fp \<and> rs = (case map_of res fp of None \<Rightarrow> [] | Some rs \<Rightarrow> rs) @ recs)"
      unfolding add_entry_def by blast
    then show "P k r"
    proof
      assume "(k, rs) \<in> set res"
      with assms(1) r show ?thesis by blast
    next
      assume "k = fp \<and> rs = (case map_of res fp of None \<Rightarrow> [] | Some rs \<Rightarrow> rs) @ recs"
      with r old assms(2) show ?thesis by auto
    qed
  qed
qed

lemma new_records_mem:
  "r \<in> set (new_records self fp contents md) \<Longrightarrow>
   \<exists>nm ob. (nm, Descriptor ob) \<in> set md \<and> startswith (file ob) (top_dir self) \<and>
           file ob = fp \<and> r = record_of contents ob"
  by (induction self fp md rule: retained.induct)
     (auto simp: new_records_def split: if_splits)

lemma Testable_find_records:
  assumes "Testable_find self e extensions = Some (Inr results)"
    and "\<And>p subs fs f contents md nm ob.
           (p, subs, fs) \<in> set (os_walk e (top_dir self)) \<Longrightarrow> f \<in> set fs \<Longrightarrow>
           readlines e (path_join (abspath e p) f) = Inr contents \<Longrightarrow>
           readmodule_ex e (fst (splitext f)) [abspath e p] = Inr md \<Longrightarrow>
           (nm, Descriptor ob) \<in> set md \<Longrightarrow> startswith (file ob) (top_dir self) \<Longrightarrow>
           file ob = path_join (abspath e p) f \<Longrightarrow>
           P (path_join (abspath e p) f) (record_of contents ob)"
  shows "\<forall>(k, rs) \<in> set results. \<forall>r \<in> set rs. P k r"
proof (rule Testable_find_invariant [OF assms(1)])
  show "\<forall>(k, rs) \<in> set []. \<forall>r \<in> set rs. P k r" by simp
next
  fix p subs fs f contents md and res :: results
  assume *: "(p, subs, fs) \<in> set (os_walk e (top_dir self))" "f \<in> set fs"
    "readlines e (path_join (abspath e p) f) = Inr contents"
    "readmodule_ex e (fst (splitext f)) [abspath e p] = Inr md"
    and res: "\<forall>(k, rs) \<in> set res. \<forall>r \<in> set rs. P k r"
  let ?fp = "path_join (abspath e p) f"
  have "\<forall>r \<in> set (new_records self ?fp contents md). P ?fp r"
    using assms(2) [OF *] by (auto dest!: new_records_mem)
  with res show "\<forall>(k, rs) \<in> set (add_entry ?fp (new_records self ?fp contents md) res).
                   \<forall>r \<in> set rs. P k r"
    by (rule add_entry_records)
qed

text \<open>
  Claim C5: in every result of \<^verbatim>\<open>find\<close>, the \<^verbatim>\<open>file\<close> of every record equals the key of the
  entry that holds the record, and starts with the root directory: a definition whose
  originating file is another file never appears under the entry of the analyzed file.
\<close>

theorem find_file_is_key:
  assumes "Testable_find self e extensions = Some (Inr results)"
  shows "\<forall>(k, rs) \<in> set results. \<forall>r \<in> set rs.
           file (obj r) = k \<and> startswith (file (obj r)) (top_dir self)"
  by (rule Testable_find_records [OF assms]) (simp add: record_of_def)

theorem find_file_is_key_witness:
  "Testable_find \<lparr>top_dir = ''/srv/app''\<rparr> example_tree None = Some (Inr example_tree_results) \<and>
   list_all (\<lambda>(k, rs). list_all (\<lambda>r. file (obj r) = k \<and> startswith (file (obj r)) ''/srv/app'') rs)
     example_tree_results \<and>
   map (\<lambda>(k, rs). (k, map (file \<circ> obj) rs)) example_tree_results =
     [(''/srv/app/pkg/util.py'', [''/srv/app/pkg/util.py'']),
      (''/srv/app/app.py'', [''/srv/app/app.py'']),
      (''/srv/app/empty.py'', [])]"
  using find_file_is_key [OF example_tree_find] example_tree_find
  by (simp add: list_all_iff case_prod_unfold example_tree_results_def)

subsection \<open>Stripped decorator lines\<close>

lemma not_isspace_at [simp]: "\<not> isspace (CHR ''@'')"
  by (simp add: isspace_def)

lemma not_isspace_paren [simp]: "\<not> isspace (CHR ''('')"
  by (simp add: isspace_def)

lemma rstrip_Cons:
  "\<not> P c \<Longrightarrow> rev (dropWhile P (rev (c # cs))) = c # rev (dropWhile P (rev cs))"
  by (simp add: dropWhile_append)

lemma rstrip_keeps_sublist:
  assumes "sublist sub xs" and "sub \<noteq> []" and "\<not> P (last sub)"
  shows "sublist sub (rev (dropWhile P (rev xs)))"
proof -
  from assms(1) obtain ps ss where xs: "xs = ps @ sub @ ss"
    by (auto simp: sublist_def)
  have hd: "\<not> P (hd (rev sub))" using assms(2,3) by (simp add: hd_rev)
  have "dropWhile P (rev sub @ rev ps) = rev sub @ rev ps"
    using assms(2) hd by (cases "rev sub") auto
  then have "\<exists>zs. dropWhile P (rev xs) = zs @ rev sub @ rev ps"
    by (cases "\<forall>x \<in> set ss. P x") (auto simp: xs dropWhile_append intro: exI [of _ "[]"])
  then obtain zs where "rev (dropWhile P (rev xs)) = ps @ sub @ rev zs"
    by (metis rev_append rev_rev_ident append.assoc)
  then show ?thesis by (auto simp: sublist_def)
qed

lemma rstrip_idem:
  "rev (dropWhile P (rev (rev (dropWhile P (rev xs))))) = rev (dropWhile P (rev xs))"
  by (simp add: dropWhile_idem)

lemma rstrip_last:
  "rev (dropWhile P (rev xs)) \<noteq> [] \<Longrightarrow> \<not> P (last (rev (dropWhile P (rev xs))))"
  by (simp add: last_rev hd_dropWhile)

lemma strip_decorator:
  assumes "startswith line ''@''" and "sublist ''.route('' line"
  shows "startswith (strip line) ''@''" and "sublist ''.route('' (strip line)"
    and "strip (strip line) = strip line"
    and "\<not> isspace (hd (strip line))" and "\<not> isspace (last (strip line))"
proof -
  from assms(1) obtain cs where line: "line = CHR ''@'' # cs"
    by (auto simp: startswith_def prefix_def)
  have gen: "strip (CHR ''@'' # xs) = CHR ''@'' # rev (dropWhile isspace (rev xs))" for xs
    by (simp add: strip_def rstrip_Cons del: rev.simps)
  have s: "strip line = CHR ''@'' # rev (dropWhile isspace (rev cs))"
    by (simp only: line gen)
  show "startswith (strip line) ''@''"
    by (simp add: s startswith_def)
  have "strip line = rev (dropWhile isspace (rev line))"
    by (simp add: strip_def line)
  then show "sublist ''.route('' (strip line)"
    using rstrip_keeps_sublist [OF assms(2), of isspace] by simp
  show "strip (strip line) = strip line"
    by (simp only: s gen rstrip_idem)
  show "\<not> isspace (hd (strip line))"
    by (simp add: s)
  have "strip line = rev (dropWhile isspace (rev line))" "strip line \<noteq> []"
    by (simp_all add: strip_def line)
  then show "\<not> isspace (last (strip line))"
    using rstrip_last [of isspace line] by simp
qed

lemma collected_routes:
  assumes "s \<in> set (collected prev)"
  shows "startswith s ''@'' \<and> sublist ''.route('' s \<and> strip s = s \<and>
         \<not> isspace (hd s) \<and> \<not> isspace (last s)"
proof -
  from assms obtain line where "s = strip line" "startswith line ''@''" "sublist ''.route('' line"
    by (auto simp: collected_def dest: set_takeWhileD)
  then show ?thesis using strip_decorator [of line] by simp
qed

text \<open>
  Claim C10: every string in the routes of any record of a result of \<^verbatim>\<open>find\<close> starts with
  the at sign, contains \<^verbatim>\<open>.route(\<close> and equals its own stripped form: its first and its
  last character are not whitespace.
\<close>

theorem find_routes_are_route_decorators:
  assumes "Testable_find self e extensions = Some (Inr results)"
  shows "\<forall>(k, rs) \<in> set results. \<forall>r \<in> set rs. \<forall>s \<in> set (routes r).
           startswith s ''@'' \<and> sublist ''.route('' s \<and> strip s = s \<and>
           \<not> isspace (hd s) \<and> \<not> isspace (last s)"
  by (rule Testable_find_records [OF assms]) (simp add: record_of_def collected_routes)

theorem find_routes_are_route_decorators_witness:
  "Testable_find \<lparr>top_dir = ''/srv/app''\<rparr> example_tree None = Some (Inr example_tree_results) \<and>
   concat (map routes (concat (map snd example_tree_results))) =
     [''@app.route('/x', methods=['GET'])''] \<and>
   startswith ''@app.route('/x', methods=['GET'])'' ''@'' \<and>
   sublist ''.route('' ''@app.route('/x', methods=['GET'])'' \<and>
   strip ''@app.route('/x', methods=['GET'])'' = ''@app.route('/x', methods=['GET'])''"
proof -
  have "(''/srv/app/app.py'',
         [\<lparr>obj = \<lparr>cls = Function, file = ''/srv/app/app.py'', lineno = 5,
                    module = ''app'', name = ''handler''\<rparr>,
           routes = [''@app.route('/x', methods=['GET'])''], obj_type = ''Function''\<rparr>])
        \<in> set example_tree_results"
    by (simp add: example_tree_results_def)
  with find_routes_are_route_decorators [OF example_tree_find]
  have "startswith ''@app.route('/x', methods=['GET'])'' ''@'' \<and>
        sublist ''.route('' ''@app.route('/x', methods=['GET'])'' \<and>
        strip ''@app.route('/x', methods=['GET'])'' = ''@app.route('/x', methods=['GET'])''"
    by fastforce
  moreover have "concat (map routes (concat (map snd example_tree_results))) =
     [''@app.route('/x', methods=['GET'])'']"
    by (simp add: example_tree_results_def)
  ultimately show ?thesis using example_tree_find by blast
qed

subsection \<open>The keys of the result\<close>








subsection \<open>The document\<close>

text \<open>
  Claim C3, as stated, gives the objects of a file's sequence the four fields \<^verbatim>\<open>type\<close>,
  \<^verbatim>\<open>name\<close>, \<^verbatim>\<open>lineno\<close> and \<^verbatim>\<open>routes\<close>. On the end-to-end scenario the document is not the
  one the claim names: \<^verbatim>\<open>ResultJSONEncoder.default\<close> wraps the four fields in a dictionary
  keyed by the file path.
\<close>

theorem analyze_flat_record_counterexample:
  "analyze example_env ''/srv/app'' [''.py'', ''.sh''] \<noteq>
     Some (Inr (JDict
       [(''/srv/app/app.py'',
         JList [JDict [(''type'', JString ''Function''), (''name'', JString ''handler''),
                       (''lineno'', JInt 3),
                       (''routes'', JList [JString ''@app.route('/x')''])]])]))"
  by code_simp

lemma example_env_analyze:
  "analyze example_env ''/srv/app'' [''.py'', ''.sh''] =
     Some (Inr (JDict
       [(''/srv/app/app.py'',
         JList [JDict [(''/srv/app/app.py'',
                        JDict [(''type'', JString ''Function''), (''name'', JString ''handler''),
                               (''lineno'', JInt 3),
                               (''routes'', JList [JString ''@app.route('/x')''])])]])]))"
  by code_simp

text \<open>
  Claim C3, amended: the document maps each file path to a sequence of objects; each
  object has exactly one field, named by that file path, whose value is an object with
  exactly the fields \<^verbatim>\<open>type\<close>, \<^verbatim>\<open>name\<close>, \<^verbatim>\<open>lineno\<close> and \<^verbatim>\<open>routes\<close>, the last a sequence of
  strings. For the end-to-end scenario the entry of the file is the single object
  \<^verbatim>\<open>{"/srv/app/app.py": {"type": "Function", "name": "handler", "lineno": 3,
  "routes": ["@app.route('/x')"]}}\<close>.
\<close>

theorem analyze_document:
  assumes "analyze e td extensions = Some (Inr doc)"
  shows "\<exists>entries. doc = JDict entries \<and>
           (\<forall>(path, v) \<in> set entries. \<exists>recs. v = JList recs \<and>
              (\<forall>x \<in> set recs. \<exists>t n l rs.
                 x = JDict [(path, JDict [(''type'', JString t), (''name'', JString n),
                                          (''lineno'', JInt l),
                                          (''routes'', JList (map JString rs))])]))"
proof -
  from assms obtain results where
    f: "Testable_find (Testable_init e td) e (Some extensions) = Some (Inr results)" and
    doc: "doc = dumps results"
    by (auto simp: analyze_def Let_def split: option.splits sum.splits)
  have key: "\<forall>(k, rs) \<in> set results. \<forall>r \<in> set rs. file (obj r) = k"
    by (rule Testable_find_records [OF f]) (simp add: record_of_def)
  show ?thesis
    unfolding doc dumps_def
  proof (intro exI conjI)
    show "JDict (map (\<lambda>(path, rs). (path, JList (map ResultJSONEncoder_default rs))) results)
            = JDict (map (\<lambda>(path, rs). (path, JList (map ResultJSONEncoder_default rs))) results)"
      by (rule refl)
    show "\<forall>(path, v) \<in> set (map (\<lambda>(path, rs). (path, JList (map ResultJSONEncoder_default rs)))
                              results).
            \<exists>recs. v = JList recs \<and>
              (\<forall>x \<in> set recs. \<exists>t n l rs.
                 x = JDict [(path, JDict [(''type'', JString t), (''name'', JString n),
                                          (''lineno'', JInt l),
                                          (''routes'', JList (map JString rs))])])"
    proof (clarsimp)
      fix k rs r
      assume "(k, rs) \<in> set results" "r \<in> set rs"
      with key have "file (obj r) = k" by blast
      then show "\<exists>t n l rs'. ResultJSONEncoder_default r =
                   JDict [(k, JDict [(''type'', JString t), (''name'', JString n),
                                     (''lineno'', JInt l),
                                     (''routes'', JList (map JString rs'))])]"
        unfolding ResultJSONEncoder_default_def by blast
    qed
  qed
qed

theorem analyze_document_witness:
  "analyze example_env ''/srv/app'' [''.py'', ''.sh''] =
     Some (Inr (JDict
       [(''/srv/app/app.py'',
         JList [JDict [(''/srv/app/app.py'',
                        JDict [(''type'', JString ''Function''), (''name'', JString ''handler''),
                               (''lineno'', JInt 3),
                               (''routes'', JList [JString ''@app.route('/x')''])])]])])) \<and>
   (\<exists>entries.
      JDict [(''/srv/app/app.py'',
         JList [JDict [(''/srv/app/app.py'',
                        JDict [(''type'', JString ''Function''), (''name'', JString ''handler''),
                               (''lineno'', JInt 3),
                               (''routes'', JList [JString ''@app.route('/x')''])])]])]
        = JDict entries \<and>
      (\<forall>(path, v) \<in> set entries. \<exists>recs. v = JList recs \<and>
              (\<forall>x \<in> set recs. \<exists>t n l rs.
                 x = JDict [(path, JDict [(''type'', JString t), (''name'', JString n),
                                          (''lineno'', JInt l),
                                          (''routes'', JList (map JString rs))])])))"
  using analyze_document [OF example_env_analyze] example_env_analyze by (rule_tac conjI)

subsection \<open>The analyzer's own file\<close>

text \<open>
  Claim C6 says that the analyzer's own source file gets no entry and is not analyzed.
  Line 90 compares the bare file name with \<^verbatim>\<open>__file__\<close>. When \<^verbatim>\<open>__file__\<close> is the path of
  the script, the two differ, and the analyzer's own file \<^verbatim>\<open>/srv/tool/testable.py\<close> is
  read, analyzed and entered in the result.
\<close>

theorem find_own_file_not_skipped:
  "path_join ''/srv/tool'' ''testable.py'' = dunder_file own_path_env \<and>
   os_walk own_path_env ''/srv/tool'' = [(''/srv/tool'', [], [''testable.py''])] \<and>
   Testable_find \<lparr>top_dir = ''/srv/tool''\<rparr> own_path_env None =
     Some (Inr [(''/srv/tool/testable.py'',
                 [\<lparr>obj = \<lparr>cls = Class, file = ''/srv/tool/testable.py'', lineno = 1,
                            module = ''testable'', name = ''Testable''\<rparr>,
                   routes = [], obj_type = ''Class''\<rparr>])])"
  by code_simp

subsection \<open>Names within an entry\<close>















subsection \<open>Two runs\<close>






end
